theory Spec2Isabelle
  imports Main "HOL-Library.AList"
begin

section \<open>The in-memory filesystem of bp/memory.py\<close>

text \<open>
  A location is the tuple of path segments \<open>_path\<close>; contents are Python 2 byte strings.
  One store is modelled, so the \<open>_fs\<close> attribute of a path value is the state that the
  operations below take and return, and two path values are equal exactly when their
  locations are.
\<close>

type_synonym bytes = string
type_synonym location = "string list"

text \<open>
  The exceptions of the sources:
  \<^item> \<open>AlreadyExists\<close>: \<open>PathError("... already exists.")\<close> in \<open>MemoryFS.create\<close> and
    \<open>PathError(EEXIST, path)\<close> in \<open>createDirectory\<close>;
  \<^item> \<open>IsADirectory\<close>: \<open>Exception("Directories cannot be opened")\<close>;
  \<^item> \<open>NotListable\<close>: \<open>UnlistableError()\<close>;
  \<^item> \<open>NotFound\<close>: \<open>PathError(ENOENT, path)\<close>;
  \<^item> \<open>NoSize\<close>: \<open>Exception("Non-file has no size")\<close>;
  \<^item> \<open>WriteDenied\<close>: \<open>Exception("Path is read-only")\<close>;
  \<^item> \<open>ValueError\<close>: \<open>BytesIO.getvalue\<close> on a closed buffer;
  \<^item> \<open>KeyError\<close>: \<open>set.remove\<close> of an absent element.
\<close>

datatype error =
  AlreadyExists | IsADirectory | NotListable | NotFound | NoSize | WriteDenied
  | ValueError | KeyError

datatype MemoryPath = MemoryPath (mp_path: location)

text \<open>
  \<open>MemoryFile\<close>: a \<open>BytesIO\<close> buffer with the key it saves itself under when closed.
\<close>

record MemoryFile =
  mf_target :: location
  mf_buf :: bytes
  mf_closed :: bool

text \<open>
  \<open>MemoryFS\<close>: the dict \<open>_store\<close> and the dict \<open>_links\<close> are association lists, the set
  \<open>_dirs\<close> is a list that \<open>add\<close> keeps free of duplicates. Python iterates a set in an
  order of its own; here iteration follows the list, so \<open>listdir\<close> returns the names the
  code returns, in an order that may differ. Nothing proved below depends on that order.
\<close>

record MemoryFS =
  fs_store :: "(location \<times> bytes) list"
  fs_dirs :: "location list"
  fs_uids :: "(location \<times> nat option) list"
  fs_links :: "(MemoryPath \<times> MemoryPath) list"

definition MemoryFS_init :: MemoryFS where
  "MemoryFS_init = \<lparr>fs_store = [], fs_dirs = [], fs_uids = [], fs_links = []\<rparr>"

definition MemoryFile_init :: "location \<Rightarrow> bytes \<Rightarrow> MemoryFile" where
  "MemoryFile_init key buf = \<lparr>mf_target = key, mf_buf = buf, mf_closed = False\<rparr>"

text \<open>\<open>MemoryFile.close\<close>: \<open>store[key] = self.getvalue()\<close>, then the buffer is closed.\<close>

definition close :: "MemoryFile \<Rightarrow> MemoryFS \<Rightarrow> error + MemoryFile \<times> MemoryFS" where
  "close self s =
     (if mf_closed self then Inl ValueError
      else Inr (self\<lparr>mf_closed := True\<rparr>,
                s\<lparr>fs_store := AList.update (mf_target self) (mf_buf self) (fs_store s)\<rparr>))"

text \<open>\<open>MemoryFS.create\<close> and \<open>MemoryFS.open\<close> read the store and return a handle.\<close>

definition fs_create :: "location \<Rightarrow> MemoryFS \<Rightarrow> error + MemoryFile" where
  "fs_create path s =
     (if path \<in> set (fs_dirs s) \<or> path \<in> fst ` set (fs_store s) then Inl AlreadyExists
      else Inr (MemoryFile_init path []))"

definition fs_open :: "location \<Rightarrow> MemoryFS \<Rightarrow> error + MemoryFile" where
  "fs_open path s =
     (if path \<in> set (fs_dirs s) then Inl IsADirectory
      else (case map_of (fs_store s) path of
              Some b \<Rightarrow> Inr (MemoryFile_init path b)
            | None \<Rightarrow> Inr (MemoryFile_init path [])))"

definition chown :: "location \<Rightarrow> nat option \<Rightarrow> MemoryFS \<Rightarrow> MemoryFS" where
  "chown path uid s = s\<lparr>fs_uids := AList.update path uid (fs_uids s)\<rparr>"

subsection \<open>Display paths\<close>

fun join :: "string \<Rightarrow> string list \<Rightarrow> string" where
  "join sep [] = []"
| "join sep [x] = x"
| "join sep (x # y # ys) = x @ sep @ join sep (y # ys)"

definition format_memory_path :: "location \<Rightarrow> string \<Rightarrow> string" where
  "format_memory_path path sep = join sep (''/mem'' # path)"

definition sep :: string where
  "sep = ''/''"

definition path :: "MemoryPath \<Rightarrow> string" where
  "path self = format_memory_path (mp_path self) sep"

subsection \<open>Navigation\<close>

definition root :: MemoryPath where
  "root = MemoryPath []"

definition parent :: "MemoryPath \<Rightarrow> MemoryPath" where
  "parent self = (if mp_path self \<noteq> [] then MemoryPath (butlast (mp_path self)) else self)"

definition child :: "MemoryPath \<Rightarrow> string \<Rightarrow> MemoryPath" where
  "child self name = MemoryPath (mp_path self @ [name])"

definition descendant :: "MemoryPath \<Rightarrow> string list \<Rightarrow> MemoryPath" where
  "descendant self segments = MemoryPath (mp_path self @ segments)"

definition basename :: "MemoryPath \<Rightarrow> string" where
  "basename self = (if mp_path self \<noteq> [] then last (mp_path self) else [])"

definition dirname :: "MemoryPath \<Rightarrow> string" where
  "dirname self = path (parent self)"

subsection \<open>Queries\<close>

definition isdir :: "MemoryPath \<Rightarrow> MemoryFS \<Rightarrow> bool" where
  "isdir self s = (mp_path self \<in> set (fs_dirs s))"

definition isfile :: "MemoryPath \<Rightarrow> MemoryFS \<Rightarrow> bool" where
  "isfile self s = (mp_path self \<in> fst ` set (fs_store s))"

definition islink :: "MemoryPath \<Rightarrow> MemoryFS \<Rightarrow> bool" where
  "islink self s = (self \<in> fst ` set (fs_links s))"

definition exists :: "MemoryPath \<Rightarrow> MemoryFS \<Rightarrow> bool" where
  "exists self s = (isdir self s \<or> isfile self s)"

definition getsize :: "MemoryPath \<Rightarrow> MemoryFS \<Rightarrow> error + nat" where
  "getsize self s =
     (case map_of (fs_store s) (mp_path self) of
        Some b \<Rightarrow> Inr (length b)
      | None \<Rightarrow> Inl NoSize)"

definition listdir :: "MemoryPath \<Rightarrow> MemoryFS \<Rightarrow> error + string list" where
  "listdir self s =
     (if mp_path self \<notin> set (fs_dirs s) then Inl NotListable
      else (let i = fs_dirs s @ map fst (fs_store s);
                p = mp_path self;
                l = length p + 1
            in Inr (map last (filter (\<lambda>t. butlast t = p \<and> length t = l) i))))"

subsection \<open>Reading and writing\<close>

definition create :: "MemoryPath \<Rightarrow> MemoryFS \<Rightarrow> error + MemoryFile" where
  "create self s = fs_create (mp_path self) s"

text \<open>\<open>MemoryPath.open(mode)\<close> passes only the location on: the mode is not used.\<close>

definition open_file :: "MemoryPath \<Rightarrow> string \<Rightarrow> MemoryFS \<Rightarrow> error + MemoryFile" where
  "open_file self mode s = fs_open (mp_path self) s"

definition createDirectory :: "MemoryPath \<Rightarrow> MemoryFS \<Rightarrow> error + MemoryFS" where
  "createDirectory self s =
     (if mp_path self \<in> fst ` set (fs_store s) then Inl AlreadyExists
      else Inr (s\<lparr>fs_dirs := List.insert (mp_path self) (fs_dirs s)\<rparr>))"

definition getContent :: "MemoryPath \<Rightarrow> MemoryFS \<Rightarrow> error + bytes" where
  "getContent self s =
     (case map_of (fs_store s) (mp_path self) of
        Some b \<Rightarrow> Inr b
      | None \<Rightarrow> Inl NotFound)"

definition setContent :: "MemoryPath \<Rightarrow> bytes \<Rightarrow> MemoryFS \<Rightarrow> MemoryFS" where
  "setContent self content s =
     s\<lparr>fs_store := AList.update (mp_path self) content (fs_store s)\<rparr>"

definition realpath :: "MemoryPath \<Rightarrow> MemoryFS \<Rightarrow> string" where
  "realpath self s =
     path (case map_of (fs_links s) self of Some t \<Rightarrow> t | None \<Rightarrow> self)"

definition linkTo :: "MemoryPath \<Rightarrow> MemoryPath \<Rightarrow> MemoryFS \<Rightarrow> MemoryFS" where
  "linkTo self linkFilePath s =
     s\<lparr>fs_links := AList.update linkFilePath self (fs_links s)\<rparr>"

subsection \<open>Generic algorithms of bp/generic.py, on the in-memory path\<close>

definition genericChildren :: "MemoryPath \<Rightarrow> MemoryFS \<Rightarrow> error + MemoryPath list" where
  "genericChildren p s =
     (case listdir p s of Inl e \<Rightarrow> Inl e | Inr ks \<Rightarrow> Inr (map (child p) ks))"

definition genericSibling :: "MemoryPath \<Rightarrow> string \<Rightarrow> MemoryPath" where
  "genericSibling p segment = child (parent p) segment"

text \<open>
  The loop of \<open>genericParents\<close>, with the values it yields collected in a list:
  \<open>while path != parent: yield parent; path = parent; parent = parent.parent()\<close>.
\<close>

function genericParents_loop :: "MemoryPath \<Rightarrow> MemoryPath \<Rightarrow> MemoryPath list" where
  "genericParents_loop p par =
     (if p \<noteq> par then par # genericParents_loop par (parent par) else [])"
  by pat_completeness auto
termination
  by (relation "measure (\<lambda>(p, par). length (mp_path par) + (if p \<noteq> par then 1 else 0))")
     (auto simp: parent_def)

declare genericParents_loop.simps [simp del]

definition genericParents :: "MemoryPath \<Rightarrow> MemoryPath list" where
  "genericParents p = genericParents_loop p (parent p)"

subsection \<open>Removal\<close>

text \<open>
  \<open>MemoryPath.remove\<close>. The children are listed once, before the first of them is
  removed; \<open>remove_each\<close> is the \<open>for\<close> loop over them, threading the store and
  stopping at the first exception, with the store as that exception leaves it.
\<close>

function remove :: "MemoryPath \<Rightarrow> MemoryFS \<Rightarrow> (error + unit) \<times> MemoryFS"
  and remove_each :: "MemoryPath list \<Rightarrow> MemoryFS \<Rightarrow> (error + unit) \<times> MemoryFS"
where
  "remove self s =
     (if isdir self s then
        (case genericChildren self s of
           Inl e \<Rightarrow> (Inl e, s)
         | Inr cs \<Rightarrow>
             (let r = remove_each cs s in
              case fst r of
                Inl e \<Rightarrow> r
              | Inr u \<Rightarrow>
                  (if mp_path self \<in> set (fs_dirs (snd r))
                   then (Inr (), (snd r)\<lparr>fs_dirs := removeAll (mp_path self) (fs_dirs (snd r))\<rparr>)
                   else (Inl KeyError, snd r))))
      else
        (if mp_path self \<in> fst ` set (fs_store s)
         then (Inr (), s\<lparr>fs_store := AList.delete (mp_path self) (fs_store s)\<rparr>)
         else (Inl NotFound, s)))"
| "remove_each [] s = (Inr (), s)"
| "remove_each (c # cs) s =
     (let r = remove c s in
      case fst r of
        Inl e \<Rightarrow> r
      | Inr u \<Rightarrow> remove_each cs (snd r))"
  by pat_completeness auto

text \<open>
  The longest location of a store, and the weights that decrease along the recursion
  of \<open>remove\<close>.
\<close>

definition depth :: "MemoryFS \<Rightarrow> nat" where
  "depth s = Max (insert 0 (length ` (set (fs_dirs s) \<union> fst ` set (fs_store s))))"

definition remove_weight :: "MemoryPath \<Rightarrow> MemoryFS \<Rightarrow> nat" where
  "remove_weight p s = 2 * (depth s + 1 - length (mp_path p)) + 1"

definition remove_each_weight :: "MemoryPath list \<Rightarrow> MemoryFS \<Rightarrow> nat" where
  "remove_each_weight cs s = Max (insert 0 ((\<lambda>c. remove_weight c s + 1) ` set cs))"

section \<open>The read-only wrapper of bp/readonly.py\<close>

text \<open>
  \<open>ReadOnlyPath\<close> wraps a path value of any backend. A delegating method takes the
  wrapped backend's method as its first argument; a refusing method raises before it
  looks at the wrapped path, so the backend state comes back as it went in.
\<close>

datatype 'fp ReadOnlyPath = ReadOnlyPath (ro_fp: 'fp)

definition ro_getContent ::
  "('fp \<Rightarrow> 'st \<Rightarrow> error + bytes) \<Rightarrow> 'fp ReadOnlyPath \<Rightarrow> 'st \<Rightarrow> error + bytes" where
  "ro_getContent fp_getContent self s = fp_getContent (ro_fp self) s"

definition ro_setContent :: "'fp ReadOnlyPath \<Rightarrow> bytes \<Rightarrow> 'st \<Rightarrow> (error + unit) \<times> 'st" where
  "ro_setContent self content s = (Inl WriteDenied, s)"

definition ro_createDirectory :: "'fp ReadOnlyPath \<Rightarrow> 'st \<Rightarrow> (error + unit) \<times> 'st" where
  "ro_createDirectory self s = (Inl WriteDenied, s)"

definition ro_isfile :: "('fp \<Rightarrow> 'st \<Rightarrow> bool) \<Rightarrow> 'fp ReadOnlyPath \<Rightarrow> 'st \<Rightarrow> bool" where
  "ro_isfile fp_isfile self s = fp_isfile (ro_fp self) s"

section \<open>Sequences of calls on one store\<close>

text \<open>
  The calls a client can make on the paths of one store. \<open>create\<close> and \<open>open\<close> only
  hand out a handle; a handle that reaches \<open>close\<close> carries the target given to it
  when it was made and whatever buffer the writes since have left. A call that raises
  leaves the store as it was at the raise.
\<close>

datatype call =
  Create MemoryPath
  | Open MemoryPath string
  | Close MemoryFile
  | CreateDirectory MemoryPath
  | SetContent MemoryPath bytes
  | Remove MemoryPath
  | LinkTo MemoryPath MemoryPath

fun perform :: "call \<Rightarrow> MemoryFS \<Rightarrow> MemoryFS" where
  "perform (Create p) s = s"
| "perform (Open p mode) s = s"
| "perform (Close h) s = (case close h s of Inl e \<Rightarrow> s | Inr (h', s') \<Rightarrow> s')"
| "perform (CreateDirectory p) s = (case createDirectory p s of Inl e \<Rightarrow> s | Inr s' \<Rightarrow> s')"
| "perform (SetContent p b) s = setContent p b s"
| "perform (Remove p) s = snd (remove p s)"
| "perform (LinkTo a b) s = linkTo a b s"

fun run :: "call list \<Rightarrow> MemoryFS \<Rightarrow> MemoryFS" where
  "run [] s = s"
| "run (c # cs) s = run cs (perform c s)"

text \<open>No location is both a key of the content map and a member of the directory set.\<close>

definition separate :: "MemoryFS \<Rightarrow> bool" where
  "separate s = (set (fs_dirs s) \<inter> fst ` set (fs_store s) = {})"

text \<open>
  A call that writes content (\<open>setContent\<close>, closing a handle) is off a directory when
  its location is not in the directory set of the store it is made on.
\<close>

fun off_directory :: "call \<Rightarrow> MemoryFS \<Rightarrow> bool" where
  "off_directory (SetContent p b) s = (\<not> isdir p s)"
| "off_directory (Close h) s = (mf_target h \<notin> set (fs_dirs s))"
| "off_directory c s = True"

fun all_off_directory :: "call list \<Rightarrow> MemoryFS \<Rightarrow> bool" where
  "all_off_directory [] s = True"
| "all_off_directory (c # cs) s = (off_directory c s \<and> all_off_directory cs (perform c s))"

section \<open>Termination of removal\<close>

lemma remove_shrinks_partial:
  "remove_remove_each_dom (Inl (p, s)) \<Longrightarrow>
     set (fs_dirs (snd (remove p s))) \<subseteq> set (fs_dirs s) \<and>
     fst ` set (fs_store (snd (remove p s))) \<subseteq> fst ` set (fs_store s)"
  "remove_remove_each_dom (Inr (cs, s)) \<Longrightarrow>
     set (fs_dirs (snd (remove_each cs s))) \<subseteq> set (fs_dirs s) \<and>
     fst ` set (fs_store (snd (remove_each cs s))) \<subseteq> fst ` set (fs_store s)"
proof (induction p s and cs s rule: remove_remove_each.pinduct)
  case (1 self s)
  show ?case
  proof (cases "isdir self s")
    case False
    then show ?thesis
      using "1.hyps" AList.dom_delete_subset [of "mp_path self" "fs_store s"]
      by (simp add: remove.psimps)
  next
    case True
    show ?thesis
    proof (cases "genericChildren self s")
      case (Inl e)
      then show ?thesis using True "1.hyps" by (simp add: remove.psimps)
    next
      case (Inr cs)
      then show ?thesis
        using True "1.hyps" "1.IH" [OF True Inr]
        by (auto simp: remove.psimps Let_def split: sum.splits)
    qed
  qed
next
  case (2 s)
  then show ?case by (simp add: remove_each.psimps)
next
  case (3 c cs s)
  show ?case
  proof (cases "fst (remove c s)")
    case (Inl e)
    then show ?thesis using "3.hyps" "3.IH"(1) by (simp add: remove_each.psimps Let_def)
  next
    case (Inr u)
    then show ?thesis
      using "3.hyps" "3.IH"(1) "3.IH"(2) [OF refl Inr]
      by (simp add: remove_each.psimps Let_def) blast
  qed
qed

lemma depth_mono:
  assumes "set (fs_dirs s') \<subseteq> set (fs_dirs s)"
    and "fst ` set (fs_store s') \<subseteq> fst ` set (fs_store s)"
  shows "depth s' \<le> depth s"
  unfolding depth_def using assms by (intro Max_mono) auto

lemma length_le_depth:
  "t \<in> set (fs_dirs s) \<union> fst ` set (fs_store s) \<Longrightarrow> length t \<le> depth s"
  unfolding depth_def by (intro Max_ge) auto

lemma genericChildren_length:
  "genericChildren p s = Inr cs \<Longrightarrow> c \<in> set cs \<Longrightarrow> length (mp_path c) = length (mp_path p) + 1"
  by (auto simp: genericChildren_def listdir_def child_def Let_def split: if_splits sum.splits)

lemma remove_each_weight_less:
  assumes "\<And>c. c \<in> set cs \<Longrightarrow> remove_weight c s + 1 < n" and "0 < n"
  shows "remove_each_weight cs s < n"
  unfolding remove_each_weight_def using assms by (subst Max_less_iff) auto

lemma remove_weight_less_each: "remove_weight c s < remove_each_weight (c # cs) s"
proof -
  have "remove_weight c s + 1 \<le> remove_each_weight (c # cs) s"
    unfolding remove_each_weight_def by (intro Max_ge) auto
  then show ?thesis by simp
qed

lemma remove_each_weight_mono:
  assumes "depth s' \<le> depth s"
  shows "remove_each_weight cs s' \<le> remove_each_weight (c # cs) s"
proof -
  have "remove_each_weight cs s' \<le> remove_each_weight cs s"
    unfolding remove_each_weight_def
  proof (subst Max_le_iff)
    show "\<forall>a\<in>insert 0 ((\<lambda>c. remove_weight c s' + 1) ` set cs).
            a \<le> Max (insert 0 ((\<lambda>c. remove_weight c s + 1) ` set cs))"
    proof
      fix a assume a: "a \<in> insert 0 ((\<lambda>c. remove_weight c s' + 1) ` set cs)"
      show "a \<le> Max (insert 0 ((\<lambda>c. remove_weight c s + 1) ` set cs))"
      proof (cases "a = 0")
        case True then show ?thesis by simp
      next
        case False
        with a obtain d where d: "d \<in> set cs" "a = remove_weight d s' + 1" by auto
        have "remove_weight d s' + 1 \<le> remove_weight d s + 1"
          using assms by (simp add: remove_weight_def)
        also have "\<dots> \<le> Max (insert 0 ((\<lambda>c. remove_weight c s + 1) ` set cs))"
          using d(1) by (intro Max_ge) auto
        finally show ?thesis using d(2) by simp
      qed
    qed
  qed auto
  also have "\<dots> \<le> remove_each_weight (c # cs) s"
    unfolding remove_each_weight_def by (intro Max_mono) auto
  finally show ?thesis .
qed

termination remove
proof (relation "(\<lambda>x. case x of Inl (p, s) \<Rightarrow> remove_weight p s
                              | Inr (cs, s) \<Rightarrow> remove_each_weight cs s)
                    <*mlex*> measure (\<lambda>x. case x of Inl _ \<Rightarrow> 0 | Inr (cs, _) \<Rightarrow> length cs)",
       goal_cases)
  case 1
  show ?case by (simp add: wf_mlex)
next
  case (2 self s cs)
  have len: "length (mp_path self) \<le> depth s"
    using 2(1) by (intro length_le_depth) (simp add: isdir_def)
  have "remove_each_weight cs s < remove_weight self s"
  proof (rule remove_each_weight_less)
    fix c assume "c \<in> set cs"
    then have "length (mp_path c) = length (mp_path self) + 1"
      using genericChildren_length [OF 2(2)] by simp
    then show "remove_weight c s + 1 < remove_weight self s"
      using len by (simp add: remove_weight_def)
  qed (simp add: remove_weight_def)
  then show ?case by (simp add: mlex_less)
next
  case (3 c cs s)
  show ?case by (rule mlex_less) (simp add: remove_weight_less_each)
next
  case (4 c cs s r u)
  have "depth (snd r) \<le> depth s"
    using remove_shrinks_partial(1) [OF 4(3)] 4(1) by (intro depth_mono) auto
  then have "remove_each_weight cs (snd r) \<le> remove_each_weight (c # cs) s"
    by (rule remove_each_weight_mono)
  then show ?case by (intro mlex_leq) auto
qed

declare remove.simps [simp del]

section \<open>Content round trip\<close>

text \<open>
  Claim C7. For every path \<open>p\<close>, every byte string \<open>b\<close> (the empty one included) and
  every store, \<open>p.setContent(b)\<close> followed by \<open>p.getContent()\<close> returns exactly \<open>b\<close>.
\<close>

theorem setContent_getContent: "getContent p (setContent p b s) = Inr b"
  by (simp add: getContent_def setContent_def AList.update_conv')

section \<open>The root\<close>

text \<open>
  A fresh store has an empty directory set, and \<open>isdir\<close> is membership in that set:
  on a fresh store the root is not a directory and does not exist.
\<close>

theorem fresh_root_not_directory:
  "\<not> (isdir root MemoryFS_init \<and> exists root MemoryFS_init)"
  by (simp add: isdir_def root_def MemoryFS_init_def)

text \<open>
  Claim C3, amended. On every store in which the root location has no content,
  \<open>createDirectory()\<close> on the root succeeds, and in the store it leaves \<open>isdir()\<close> and
  \<open>exists()\<close> on the root are true. The root is a directory once its location has been
  added to the directory set, not before.
\<close>

theorem root_directory_after_createDirectory:
  "\<not> isfile root s \<Longrightarrow>
     \<exists>s'. createDirectory root s = Inr s' \<and> isdir root s' \<and> exists root s'"
  by (simp add: createDirectory_def isfile_def isdir_def exists_def)

text \<open>
  The fresh store is such a store: the root is not a directory there, and is one after
  \<open>createDirectory()\<close>.
\<close>

theorem root_directory_after_createDirectory_witness:
  "\<not> isfile root MemoryFS_init \<and> \<not> isdir root MemoryFS_init \<and>
   (\<exists>s'. createDirectory root MemoryFS_init = Inr s' \<and> isdir root s' \<and> exists root s')"
  using root_directory_after_createDirectory [of MemoryFS_init]
  by (simp add: isfile_def isdir_def root_def MemoryFS_init_def)

section \<open>Creating a file twice\<close>

text \<open>
  \<open>create\<close> checks the store and returns a handle; the store is written when the handle
  is closed. On a fresh store a second \<open>create\<close> at the same location, with the first
  handle still open, does not fail.
\<close>

theorem create_twice_without_close:
  "create (MemoryPath [''f'']) MemoryFS_init = Inr (MemoryFile_init [''f''] []) \<and>
   create (MemoryPath [''f'']) (perform (Create (MemoryPath [''f''])) MemoryFS_init)
     \<noteq> Inl AlreadyExists"
  by (simp add: create_def fs_create_def MemoryFS_init_def)

text \<open>
  Claim C4, amended. When \<open>create()\<close> at a location succeeds, the store is unchanged, so
  a second \<open>create()\<close> made at once succeeds as the first did; after the handle has been
  closed, whatever buffer \<open>b\<close> it then holds, \<open>create()\<close> at that location fails with
  \<open>AlreadyExists\<close>.
\<close>

theorem create_close_create:
  "create p s = Inr h \<Longrightarrow>
     create p (perform (Create p) s) = Inr h \<and>
     (\<exists>h' s'. close (h\<lparr>mf_buf := b\<rparr>) s = Inr (h', s') \<and> create p s' = Inl AlreadyExists)"
  by (auto simp: create_def fs_create_def close_def MemoryFile_init_def AList.dom_update
           split: if_splits)

text \<open>
  On the fresh store: create, write \<open>data\<close>, close, and the next create is refused.
\<close>

theorem create_close_create_witness:
  "create (MemoryPath [''f'']) MemoryFS_init = Inr (MemoryFile_init [''f''] []) \<and>
   (\<exists>h' s'. close ((MemoryFile_init [''f''] [])\<lparr>mf_buf := ''data''\<rparr>) MemoryFS_init = Inr (h', s')
      \<and> create (MemoryPath [''f'']) s' = Inl AlreadyExists)"
proof -
  have c: "create (MemoryPath [''f'']) MemoryFS_init = Inr (MemoryFile_init [''f''] [])"
    by (simp add: create_def fs_create_def MemoryFS_init_def)
  show ?thesis using create_close_create [OF c, of "''data''"] c by simp
qed

section \<open>The read-only wrapper\<close>

text \<open>
  Claim C5. For a wrapped path of any backend whose \<open>getContent()\<close> returns \<open>X\<close>:
  \<open>getContent()\<close> on the wrapper returns \<open>X\<close>, \<open>setContent(...)\<close> on the wrapper fails
  with the write-denied error and leaves the backend state as it was, and
  \<open>getContent()\<close> on the wrapped path still returns \<open>X\<close> afterwards.
\<close>

theorem readonly_getContent_setContent:
  "fp_getContent p s = Inr X \<Longrightarrow>
     ro_getContent fp_getContent (ReadOnlyPath p) s = Inr X \<and>
     fst (ro_setContent (ReadOnlyPath p) content s) = Inl WriteDenied \<and>
     snd (ro_setContent (ReadOnlyPath p) content s) = s \<and>
     fp_getContent p (snd (ro_setContent (ReadOnlyPath p) content s)) = Inr X"
  by (simp add: ro_getContent_def ro_setContent_def)

text \<open>
  With the in-memory path as the backend, at a file holding \<open>X\<close>.
\<close>

theorem readonly_getContent_setContent_witness:
  "getContent (MemoryPath [''f'']) (setContent (MemoryPath [''f'']) ''X'' MemoryFS_init) = Inr ''X'' \<and>
   ro_getContent getContent (ReadOnlyPath (MemoryPath [''f'']))
     (setContent (MemoryPath [''f'']) ''X'' MemoryFS_init) = Inr ''X'' \<and>
   fst (ro_setContent (ReadOnlyPath (MemoryPath [''f''])) ''Y''
     (setContent (MemoryPath [''f'']) ''X'' MemoryFS_init)) = Inl WriteDenied \<and>
   getContent (MemoryPath [''f''])
     (snd (ro_setContent (ReadOnlyPath (MemoryPath [''f''])) ''Y''
        (setContent (MemoryPath [''f'']) ''X'' MemoryFS_init))) = Inr ''X''"
proof -
  have g: "getContent (MemoryPath [''f'']) (setContent (MemoryPath [''f'']) ''X'' MemoryFS_init) = Inr ''X''"
    by (simp add: getContent_def setContent_def MemoryFS_init_def)
  show ?thesis
    using readonly_getContent_setContent [of getContent, OF g, of "''Y''"] g by simp
qed

section \<open>Links\<close>

text \<open>
  Claim C6. After \<open>a.linkTo(b)\<close>: \<open>b.islink()\<close> is true, \<open>b.realpath()\<close> is the display
  path of \<open>a\<close>, and every path value that is not a key of the link map has its own
  display path as \<open>realpath()\<close>.
\<close>

theorem linkTo_realpath:
  "islink b (linkTo a b s) \<and>
   realpath b (linkTo a b s) = path a \<and>
   (\<forall>p. \<not> islink p (linkTo a b s) \<longrightarrow> realpath p (linkTo a b s) = path p)"
proof (intro conjI allI impI)
  show "islink b (linkTo a b s)"
    by (simp add: islink_def linkTo_def AList.dom_update)
  show "realpath b (linkTo a b s) = path a"
    by (simp add: realpath_def linkTo_def AList.update_conv')
next
  fix p assume "\<not> islink p (linkTo a b s)"
  then have "map_of (fs_links (linkTo a b s)) p = None"
    by (simp add: islink_def map_of_eq_None_iff)
  then show "realpath p (linkTo a b s) = path p"
    by (simp add: realpath_def)
qed

text \<open>
  On the fresh store, with \<open>/mem/t\<close> as the target and \<open>/mem/l\<close> as the link.
\<close>

theorem linkTo_realpath_witness:
  "islink (MemoryPath [''l'']) (linkTo (MemoryPath [''t'']) (MemoryPath [''l'']) MemoryFS_init) \<and>
   realpath (MemoryPath [''l'']) (linkTo (MemoryPath [''t'']) (MemoryPath [''l'']) MemoryFS_init) = ''/mem/t'' \<and>
   \<not> islink (MemoryPath [''t'']) (linkTo (MemoryPath [''t'']) (MemoryPath [''l'']) MemoryFS_init) \<and>
   realpath (MemoryPath [''t'']) (linkTo (MemoryPath [''t'']) (MemoryPath [''l'']) MemoryFS_init) = ''/mem/t''"
proof -
  have n: "\<not> islink (MemoryPath [''t'']) (linkTo (MemoryPath [''t'']) (MemoryPath [''l'']) MemoryFS_init)"
    by (simp add: islink_def linkTo_def MemoryFS_init_def)
  have p: "path (MemoryPath [''t'']) = ''/mem/t''"
    by (simp add: path_def format_memory_path_def sep_def)
  show ?thesis
    using linkTo_realpath [of "MemoryPath [''l'']" "MemoryPath [''t'']" MemoryFS_init] n p
    by simp
qed

section \<open>Creating a directory\<close>

text \<open>
  Claim C8. If the location has content, \<open>createDirectory()\<close> fails with
  \<open>AlreadyExists\<close>. Otherwise it succeeds and leaves the location a directory, and a
  second \<open>createDirectory()\<close> succeeds too and leaves the store as the first did.
\<close>

theorem createDirectory_idempotent:
  "(isfile p s \<longrightarrow> createDirectory p s = Inl AlreadyExists) \<and>
   (\<not> isfile p s \<longrightarrow>
      (\<exists>s1. createDirectory p s = Inr s1 \<and> isdir p s1 \<and>
            createDirectory p s1 = Inr s1))"
  by (auto simp: createDirectory_def isfile_def isdir_def)

text \<open>
  Both cases: a location holding content, and an absent location of the fresh store.
\<close>

theorem createDirectory_idempotent_witness:
  "isfile (MemoryPath [''f'']) (setContent (MemoryPath [''f'']) ''X'' MemoryFS_init) \<and>
   createDirectory (MemoryPath [''f'']) (setContent (MemoryPath [''f'']) ''X'' MemoryFS_init)
     = Inl AlreadyExists \<and>
   \<not> isfile (MemoryPath [''d'']) MemoryFS_init \<and>
   (\<exists>s1. createDirectory (MemoryPath [''d'']) MemoryFS_init = Inr s1 \<and> isdir (MemoryPath [''d'']) s1 \<and>
         createDirectory (MemoryPath [''d'']) s1 = Inr s1)"
proof -
  have f: "isfile (MemoryPath [''f'']) (setContent (MemoryPath [''f'']) ''X'' MemoryFS_init)"
    by (simp add: isfile_def setContent_def MemoryFS_init_def)
  have d: "\<not> isfile (MemoryPath [''d'']) MemoryFS_init"
    by (simp add: isfile_def MemoryFS_init_def)
  show ?thesis
    using createDirectory_idempotent [of "MemoryPath [''f'']" "setContent (MemoryPath [''f'']) ''X'' MemoryFS_init"]
      createDirectory_idempotent [of "MemoryPath [''d'']" MemoryFS_init] f d
    by simp
qed

section \<open>Ancestors\<close>

lemma genericParents_loop_stop: "genericParents_loop p p = []"
  by (subst genericParents_loop.simps) simp

lemma genericParents_loop_step:
  "p \<noteq> par \<Longrightarrow> genericParents_loop p par = par # genericParents_loop par (parent par)"
  by (subst genericParents_loop.simps) simp

lemma genericParents_loop_child:
  "genericParents_loop (MemoryPath (xs @ [x])) (MemoryPath xs) =
     map (\<lambda>n. MemoryPath (take n xs)) (rev [0..<Suc (length xs)])"
proof (induction xs arbitrary: x rule: rev_induct)
  case Nil
  show ?case by (simp add: genericParents_loop_step genericParents_loop_stop parent_def)
next
  case (snoc y ys)
  have "genericParents_loop (MemoryPath ((ys @ [y]) @ [x])) (MemoryPath (ys @ [y])) =
          MemoryPath (ys @ [y]) # genericParents_loop (MemoryPath (ys @ [y])) (MemoryPath ys)"
    by (simp add: genericParents_loop_step parent_def)
  also have "\<dots> = MemoryPath (ys @ [y]) # map (\<lambda>n. MemoryPath (take n ys)) (rev [0..<Suc (length ys)])"
    by (simp only: snoc.IH)
  also have "\<dots> = map (\<lambda>n. MemoryPath (take n (ys @ [y]))) (rev [0..<Suc (length (ys @ [y]))])"
    by simp
  finally show ?case .
qed

text \<open>
  Claim C9. \<open>genericParents\<close> returns, for every path value, the finite list of its
  proper prefixes from the immediate parent down to the root (none for the root
  itself); for \<open>root/a/b\<close> that is \<open>[root/a, root]\<close>. The root is its own parent, and the
  parent of a child is the path the child was made from.
\<close>

theorem genericParents_ancestors:
  "genericParents p = map (\<lambda>n. MemoryPath (take n (mp_path p))) (rev [0..<length (mp_path p)]) \<and>
   genericParents (child (child root ''a'') ''b'') = [child root ''a'', root] \<and>
   parent root = root \<and> parent (child p name) = p"
proof (intro conjI)
  show g: "genericParents p = map (\<lambda>n. MemoryPath (take n (mp_path p))) (rev [0..<length (mp_path p)])"
    for p
  proof (cases "mp_path p" rule: rev_cases)
    case Nil
    then show ?thesis by (simp add: genericParents_def parent_def genericParents_loop_stop)
  next
    case (snoc xs x)
    then have p: "p = MemoryPath (xs @ [x])" by (cases p) simp
    have "genericParents p = genericParents_loop (MemoryPath (xs @ [x])) (MemoryPath xs)"
      by (simp add: genericParents_def parent_def p)
    then show ?thesis by (simp add: genericParents_loop_child p)
  qed
  show "genericParents (child (child root ''a'') ''b'') = [child root ''a'', root]"
    by (simp add: g child_def root_def)
  show "parent root = root" by (simp add: parent_def root_def)
  show "parent (child p name) = p" by (cases p) (simp add: parent_def child_def)
qed

section \<open>Opening and closing\<close>

text \<open>
  Claim C10. \<open>MemoryPath.open\<close> gives the same result for every mode. At a location
  that is neither a directory nor a file it succeeds, for every mode, with an empty
  handle. Closing that handle writes its buffer to the content map: with whatever
  buffer \<open>b\<close> the writes have left in it, the location is afterwards a file with content
  \<open>b\<close>; with nothing written, a file with empty content.
\<close>

theorem open_ignores_mode:
  "open_file p mode s = open_file p ''r'' s \<and>
   (\<not> isdir p s \<and> \<not> isfile p s \<longrightarrow>
      open_file p mode s = Inr (MemoryFile_init (mp_path p) []) \<and>
      (\<exists>h' s'. close ((MemoryFile_init (mp_path p) [])\<lparr>mf_buf := b\<rparr>) s = Inr (h', s') \<and>
               isfile p s' \<and> getContent p s' = Inr b) \<and>
      (\<exists>h' s'. close (MemoryFile_init (mp_path p) []) s = Inr (h', s') \<and>
               isfile p s' \<and> getContent p s' = Inr []))"
proof (intro conjI impI)
  show "open_file p mode s = open_file p ''r'' s" by (simp add: open_file_def)
next
  assume a: "\<not> isdir p s \<and> \<not> isfile p s"
  then have "map_of (fs_store s) (mp_path p) = None"
    by (simp add: isfile_def map_of_eq_None_iff)
  then show "open_file p mode s = Inr (MemoryFile_init (mp_path p) [])"
    using a by (simp add: open_file_def fs_open_def isdir_def)
  show "\<exists>h' s'. close ((MemoryFile_init (mp_path p) [])\<lparr>mf_buf := b\<rparr>) s = Inr (h', s') \<and>
               isfile p s' \<and> getContent p s' = Inr b"
    by (simp add: close_def MemoryFile_init_def isfile_def getContent_def
        AList.dom_update AList.update_conv')
  show "\<exists>h' s'. close (MemoryFile_init (mp_path p) []) s = Inr (h', s') \<and>
               isfile p s' \<and> getContent p s' = Inr []"
    by (simp add: close_def MemoryFile_init_def isfile_def getContent_def
        AList.dom_update AList.update_conv')
qed

text \<open>
  On the fresh store, with the read mode \<open>r\<close>: closed after \<open>data\<close> was written, and
  closed with nothing written.
\<close>

theorem open_ignores_mode_witness:
  "\<not> isdir (MemoryPath [''f'']) MemoryFS_init \<and> \<not> isfile (MemoryPath [''f'']) MemoryFS_init \<and>
   open_file (MemoryPath [''f'']) ''r'' MemoryFS_init = Inr (MemoryFile_init [''f''] []) \<and>
   (\<exists>h' s'. close ((MemoryFile_init [''f''] [])\<lparr>mf_buf := ''data''\<rparr>) MemoryFS_init = Inr (h', s') \<and>
            isfile (MemoryPath [''f'']) s' \<and> getContent (MemoryPath [''f'']) s' = Inr ''data'') \<and>
   (\<exists>h' s'. close (MemoryFile_init [''f''] []) MemoryFS_init = Inr (h', s') \<and>
            isfile (MemoryPath [''f'']) s' \<and> getContent (MemoryPath [''f'']) s' = Inr [])"
proof -
  have a: "\<not> isdir (MemoryPath [''f'']) MemoryFS_init \<and> \<not> isfile (MemoryPath [''f'']) MemoryFS_init"
    by (simp add: isdir_def isfile_def MemoryFS_init_def)
  show ?thesis
    using open_ignores_mode [of "MemoryPath [''f'']" "''r''" MemoryFS_init "''data''"] a by simp
qed

section \<open>Removal only takes away\<close>

text \<open>
  Whether it returns or raises, \<open>remove\<close> leaves a store whose directory set and
  content keys are among those it started from.
\<close>

lemma remove_shrinks:
  "set (fs_dirs (snd (remove p s))) \<subseteq> set (fs_dirs s) \<and>
   fst ` set (fs_store (snd (remove p s))) \<subseteq> fst ` set (fs_store s)"
  "set (fs_dirs (snd (remove_each cs s))) \<subseteq> set (fs_dirs s) \<and>
   fst ` set (fs_store (snd (remove_each cs s))) \<subseteq> fst ` set (fs_store s)"
proof (induction p s and cs s rule: remove_remove_each.induct)
  case (1 self s)
  show ?case
  proof (cases "isdir self s")
    case False
    then show ?thesis
      using AList.dom_delete_subset [of "mp_path self" "fs_store s"]
      by (simp add: remove.simps)
  next
    case True
    show ?thesis
    proof (cases "genericChildren self s")
      case (Inl e)
      then show ?thesis using True by (simp add: remove.simps)
    next
      case (Inr cs)
      then show ?thesis
        using True "1.IH" [OF True Inr]
        by (auto simp: remove.simps Let_def split: sum.splits)
    qed
  qed
next
  case (2 s)
  then show ?case by simp
next
  case (3 c cs s)
  show ?case
  proof (cases "fst (remove c s)")
    case (Inl e)
    then show ?thesis using "3.IH"(1) by (simp add: Let_def)
  next
    case (Inr u)
    then show ?thesis
      using "3.IH"(1) "3.IH"(2) [OF refl Inr]
      by (simp add: Let_def) blast
  qed
qed

section \<open>Directories and files apart\<close>

lemma separate_init: "separate MemoryFS_init"
  by (simp add: separate_def MemoryFS_init_def)

lemma separate_createDirectory:
  "separate s \<Longrightarrow> separate (perform (CreateDirectory p) s)"
  by (auto simp: separate_def createDirectory_def)

lemma separate_setContent:
  "separate s \<Longrightarrow> \<not> isdir p s \<Longrightarrow> separate (setContent p b s)"
  by (auto simp: separate_def setContent_def isdir_def AList.dom_update)

lemma separate_close:
  "separate s \<Longrightarrow> mf_target h \<notin> set (fs_dirs s) \<Longrightarrow> separate (perform (Close h) s)"
  by (auto simp: separate_def close_def AList.dom_update)

lemma separate_remove: "separate s \<Longrightarrow> separate (snd (remove p s))"
  using remove_shrinks(1) [of p s] unfolding separate_def by blast

lemma separate_linkTo: "separate s \<Longrightarrow> separate (linkTo a b s)"
  by (simp add: separate_def linkTo_def)

lemma separate_perform:
  "separate s \<Longrightarrow> off_directory c s \<Longrightarrow> separate (perform c s)"
proof (cases c)
  case (Close h)
  assume "separate s" "off_directory c s"
  then show ?thesis using Close separate_close [of s h] by simp
next
  case (CreateDirectory p)
  assume "separate s"
  then show ?thesis using CreateDirectory separate_createDirectory [of s p] by simp
qed (simp_all add: separate_setContent separate_remove separate_linkTo)

lemma separate_run:
  "separate s \<Longrightarrow> all_off_directory cs s \<Longrightarrow> separate (run cs s)"
proof (induction cs arbitrary: s)
  case Nil
  then show ?case by simp
next
  case (Cons c cs)
  from Cons.prems have "separate (perform c s)" "all_off_directory cs (perform c s)"
    by (simp_all add: separate_perform)
  then show ?case using Cons.IH by simp
qed

text \<open>
  \<open>setContent\<close> does not look at the directory set: after \<open>createDirectory()\<close> and
  \<open>setContent\<close> at one location of a fresh store, the location is a directory and a
  file at once.
\<close>

theorem setContent_on_directory_not_separate:
  "\<not> separate (run [CreateDirectory (MemoryPath [''d'']), SetContent (MemoryPath [''d'']) ''x'']
       MemoryFS_init) \<and>
   isdir (MemoryPath [''d''])
     (run [CreateDirectory (MemoryPath [''d'']), SetContent (MemoryPath [''d'']) ''x''] MemoryFS_init) \<and>
   isfile (MemoryPath [''d''])
     (run [CreateDirectory (MemoryPath [''d'']), SetContent (MemoryPath [''d'']) ''x''] MemoryFS_init)"
  by (simp add: separate_def createDirectory_def setContent_def MemoryFS_init_def isdir_def
      isfile_def)

text \<open>
  The same through a handle: \<open>open\<close> at an absent location, \<open>createDirectory()\<close>
  there, then closing the handle.
\<close>

lemma close_on_directory_not_separate:
  "open_file (MemoryPath [''d'']) ''w'' MemoryFS_init = Inr (MemoryFile_init [''d''] []) \<and>
   \<not> separate (run [Open (MemoryPath [''d'']) ''w'', CreateDirectory (MemoryPath [''d'']),
                    Close (MemoryFile_init [''d''] [])] MemoryFS_init)"
  by (simp add: separate_def open_file_def fs_open_def createDirectory_def close_def
      MemoryFile_init_def MemoryFS_init_def)

text \<open>
  Claim C1, amended. In every store reached from a fresh one by calls of \<open>create\<close>,
  \<open>open\<close>, \<open>close\<close>, \<open>createDirectory\<close>, \<open>setContent\<close>, \<open>remove\<close> and \<open>linkTo\<close> in which
  each \<open>setContent\<close> and each \<open>close\<close> is made at a location that is not a directory at
  that moment, no location is both a key of the content map and a member of the
  directory set. Each such call keeps that property from any store that has it:
  \<open>createDirectory\<close>, \<open>remove\<close>, \<open>linkTo\<close>, \<open>create\<close> and \<open>open\<close> always, \<open>setContent\<close> and
  \<open>close\<close> off a directory.
\<close>

theorem separate_off_directory:
  "(all_off_directory cs MemoryFS_init \<longrightarrow> separate (run cs MemoryFS_init)) \<and>
   (separate s \<and> off_directory c s \<longrightarrow> separate (perform c s))"
  by (simp add: separate_run separate_init separate_perform)

text \<open>
  A directory \<open>d\<close> and a file \<open>d/f\<close> made on the fresh store, then a handle closed at
  the absent location \<open>g\<close>.
\<close>

theorem separate_off_directory_witness:
  "all_off_directory
     [CreateDirectory (MemoryPath [''d'']), SetContent (MemoryPath [''d'', ''f'']) ''x'']
     MemoryFS_init \<and>
   separate (run [CreateDirectory (MemoryPath [''d'']), SetContent (MemoryPath [''d'', ''f'']) ''x'']
     MemoryFS_init) \<and>
   isdir (MemoryPath [''d''])
     (run [CreateDirectory (MemoryPath [''d'']), SetContent (MemoryPath [''d'', ''f'']) ''x'']
        MemoryFS_init) \<and>
   isfile (MemoryPath [''d'', ''f''])
     (run [CreateDirectory (MemoryPath [''d'']), SetContent (MemoryPath [''d'', ''f'']) ''x'']
        MemoryFS_init) \<and>
   off_directory (Close (MemoryFile_init [''g''] ''y''))
     (run [CreateDirectory (MemoryPath [''d'']), SetContent (MemoryPath [''d'', ''f'']) ''x'']
        MemoryFS_init) \<and>
   separate (perform (Close (MemoryFile_init [''g''] ''y''))
     (run [CreateDirectory (MemoryPath [''d'']), SetContent (MemoryPath [''d'', ''f'']) ''x'']
        MemoryFS_init))"
proof -
  let ?cs = "[CreateDirectory (MemoryPath [''d'']), SetContent (MemoryPath [''d'', ''f'']) ''x'']"
  have a: "all_off_directory ?cs MemoryFS_init"
    by (simp add: createDirectory_def isdir_def MemoryFS_init_def)
  have r: "run ?cs MemoryFS_init =
      \<lparr>fs_store = [([''d'', ''f''], ''x'')], fs_dirs = [[''d'']], fs_uids = [], fs_links = []\<rparr>"
    by (simp add: createDirectory_def setContent_def MemoryFS_init_def)
  have o: "off_directory (Close (MemoryFile_init [''g''] ''y'')) (run ?cs MemoryFS_init)"
    unfolding r by (simp add: MemoryFile_init_def)
  have s: "separate (run ?cs MemoryFS_init)"
    using separate_off_directory [of ?cs] a by simp
  have "separate (perform (Close (MemoryFile_init [''g''] ''y'')) (run ?cs MemoryFS_init))"
    using separate_off_directory [of ?cs "run ?cs MemoryFS_init" "Close (MemoryFile_init [''g''] ''y'')"]
      s o by simp
  moreover have "isdir (MemoryPath [''d'']) (run ?cs MemoryFS_init)"
    unfolding r by (simp add: isdir_def)
  moreover have "isfile (MemoryPath [''d'', ''f'']) (run ?cs MemoryFS_init)"
    unfolding r by (simp add: isfile_def)
  ultimately show ?thesis using a s o by blast
qed

section \<open>Removing the root\<close>

lemma createDirectory_root_init:
  "createDirectory root MemoryFS_init =
     Inr \<lparr>fs_store = [], fs_dirs = [[]], fs_uids = [], fs_links = []\<rparr>"
  by (simp add: createDirectory_def root_def MemoryFS_init_def)

text \<open>
  On a fresh store the root is neither a directory nor a file: after the two
  \<open>setContent\<close> calls, \<open>remove()\<close> on the root raises the not-found error and
  \<open>root/foo\<close> still exists.
\<close>

lemma remove_root_fresh_fails:
  "fst (remove root
     (setContent (descendant root [''bar'', ''baz'']) ''Bye!''
        (setContent (child root ''foo'') ''Hi!'' MemoryFS_init))) = Inl NotFound \<and>
   exists (child root ''foo'')
     (snd (remove root
        (setContent (descendant root [''bar'', ''baz'']) ''Bye!''
           (setContent (child root ''foo'') ''Hi!'' MemoryFS_init))))"
  by (simp add: remove.simps isdir_def isfile_def exists_def root_def child_def descendant_def
      setContent_def MemoryFS_init_def)

lemma remove_root_scenario:
  "remove root
     (setContent (descendant root [''bar'', ''baz'']) b2
        (setContent (child root ''foo'') b1
           \<lparr>fs_store = [], fs_dirs = [[]], fs_uids = [], fs_links = []\<rparr>)) =
   (Inr (), \<lparr>fs_store = [([''bar'', ''baz''], b2)], fs_dirs = [], fs_uids = [], fs_links = []\<rparr>)"
  by (simp add: remove.simps isdir_def genericChildren_def listdir_def Let_def
      root_def child_def descendant_def setContent_def AList.delete_eq)

text \<open>
  Claim C2, where the code departs from the claim and from \<open>test_removeDirectory\<close>.
  With the root a directory, as that test has it (here by \<open>createDirectory()\<close> on the
  root of a fresh store), after \<open>setContent\<close> at \<open>root/foo\<close> and at \<open>root/bar/baz\<close> the
  call \<open>remove()\<close> on the root returns, and the root and \<open>root/foo\<close> no longer exist;
  but \<open>root/bar/baz\<close> still does. \<open>root/bar\<close> was never entered in the directory set,
  and the listing of the root keeps direct children only, so the recursion never
  reaches \<open>root/bar/baz\<close>.
\<close>

theorem remove_root_leaves_orphan:
  "(case createDirectory root MemoryFS_init of
      Inl e \<Rightarrow> False
    | Inr s1 \<Rightarrow>
        (let s2 = setContent (child root ''foo'') ''Hi!'' s1;
             s3 = setContent (descendant root [''bar'', ''baz'']) ''Bye!'' s2;
             r = remove root s3
         in fst r = Inr () \<and> \<not> exists root (snd r) \<and> \<not> exists (child root ''foo'') (snd r) \<and>
            exists (descendant root [''bar'', ''baz'']) (snd r) \<and>
            getContent (descendant root [''bar'', ''baz'']) (snd r) = Inr ''Bye!''))"
proof -
  let ?s = "\<lparr>fs_store = [([''bar'', ''baz''], ''Bye!'')], fs_dirs = [], fs_uids = [],
              fs_links = []\<rparr>"
  have "\<not> exists root ?s"
    by (simp add: exists_def isdir_def isfile_def root_def)
  moreover have "\<not> exists (child root ''foo'') ?s"
    by (simp add: exists_def isdir_def isfile_def root_def child_def)
  moreover have "exists (descendant root [''bar'', ''baz'']) ?s"
    by (simp add: exists_def isfile_def root_def descendant_def)
  moreover have "getContent (descendant root [''bar'', ''baz'']) ?s = Inr ''Bye!''"
    by (simp add: getContent_def root_def descendant_def)
  ultimately show ?thesis
    by (simp add: createDirectory_root_init Let_def remove_root_scenario)
qed

text \<open>
  The recursion itself works: with \<open>root/bar\<close> entered in the directory set as well,
  the same removal reaches \<open>root/bar/baz\<close> and leaves the store empty.
\<close>

lemma remove_root_marked_directories:
  "remove root
     (setContent (descendant root [''bar'', ''baz'']) b2
        (setContent (child root ''foo'') b1
           \<lparr>fs_store = [], fs_dirs = [[''bar''], []], fs_uids = [], fs_links = []\<rparr>)) =
   (Inr (), \<lparr>fs_store = [], fs_dirs = [], fs_uids = [], fs_links = []\<rparr>)"
  by (simp add: remove.simps isdir_def genericChildren_def listdir_def Let_def
      root_def child_def descendant_def setContent_def AList.delete_eq)

end
